theory Spec2Isabelle
  imports Main "HOL-Library.Word"
begin

section \<open>JavaScript strings\<close>

text \<open>
  A JavaScript string is a sequence of UTF-16 code units. The dashboard
  (\<^verbatim>\<open>static/js/app.js\<close>) splits, trims and joins such strings, and
  \<^verbatim>\<open>String.prototype.trim\<close> strips code units outside ASCII, so a code unit is
  a 16-bit word and not an 8-bit \<^typ>\<open>char\<close>.
\<close>

type_synonym unit16 = "16 word"
type_synonym jsstring = "unit16 list"

text \<open>An ASCII literal of the source, as code units.\<close>

definition js :: "string \<Rightarrow> jsstring" where
  "js s = map of_char s"

definition NL :: unit16 where
  "NL = 0x0A"

definition HASH :: unit16 where
  "HASH = 0x23"

text \<open>
  \<^verbatim>\<open>s.split('\n')\<close>: the pieces between the separators, in order. The empty
  string gives one empty piece, and a trailing separator gives a trailing empty piece.
\<close>

fun split :: "unit16 \<Rightarrow> jsstring \<Rightarrow> jsstring list" where
  "split sep [] = [[]]"
| "split sep (c # cs) =
     (if c = sep then [] # split sep cs
      else (case split sep cs of
              [] \<Rightarrow> [[c]]
            | l # ls \<Rightarrow> (c # l) # ls))"

text \<open>
  The code units that \<^verbatim>\<open>trim\<close> strips: ECMAScript's WhiteSpace (TAB, VT, FF,
  SP, NBSP, ZWNBSP and the category Zs) and LineTerminator (LF, CR, LS, PS). All of them
  lie in the Basic Multilingual Plane, so each is a single code unit.
\<close>

definition is_ws :: "unit16 \<Rightarrow> bool" where
  "is_ws c \<longleftrightarrow>
     c = 0x0009 \<or> c = 0x000A \<or> c = 0x000B \<or> c = 0x000C \<or> c = 0x000D \<or>
     c = 0x0020 \<or> c = 0x00A0 \<or> c = 0x1680 \<or> (0x2000 \<le> c \<and> c \<le> 0x200A) \<or>
     c = 0x2028 \<or> c = 0x2029 \<or> c = 0x202F \<or> c = 0x205F \<or> c = 0x3000 \<or>
     c = 0xFEFF"

text \<open>\<^verbatim>\<open>s.trim()\<close>: white space removed from both ends.\<close>

definition trim :: "jsstring \<Rightarrow> jsstring" where
  "trim s = rev (dropWhile is_ws (rev (dropWhile is_ws s)))"

text \<open>\<^verbatim>\<open>s.startsWith(p)\<close>.\<close>

fun startsWith :: "jsstring \<Rightarrow> jsstring \<Rightarrow> bool" where
  "startsWith s [] = True"
| "startsWith [] (p # ps) = False"
| "startsWith (c # cs) (p # ps) = (c = p \<and> startsWith cs ps)"

text \<open>\<^verbatim>\<open>xs.join(sep)\<close> on an array of strings.\<close>

fun join :: "jsstring \<Rightarrow> jsstring list \<Rightarrow> jsstring" where
  "join sep [] = []"
| "join sep [x] = x"
| "join sep (x # y # ys) = x @ sep @ join sep (y # ys)"

text \<open>
  The filter of \<^verbatim>\<open>saveTokens\<close> and \<^verbatim>\<open>saveProxies\<close>:
  \<^verbatim>\<open>t => t.trim() && !t.startsWith('#')\<close>. A string is truthy when it is not
  empty. The line is trimmed for the first test only; \<^verbatim>\<open>startsWith\<close> reads the
  line as it was typed.
\<close>

definition keep_line :: "jsstring \<Rightarrow> bool" where
  "keep_line t \<longleftrightarrow> trim t \<noteq> [] \<and> \<not> startsWith t [HASH]"

text \<open>\<^verbatim>\<open>textarea.value.split('\n').filter(...)\<close>.\<close>

definition parse_lines :: "jsstring \<Rightarrow> jsstring list" where
  "parse_lines v = filter keep_line (split NL v)"

section \<open>JSON values\<close>

text \<open>
  What \<^verbatim>\<open>response.json()\<close> yields, and \<^verbatim>\<open>undefined\<close> for a property that
  is not there. A number is an integer \<open>n\<close> with \<open>-2\<^sup>5\<^sup>3 \<le> n < 2\<^sup>5\<^sup>3\<close>, held in a
  54-bit word and read by \<open>sint\<close>: on these \<^verbatim>\<open>JSON.parse\<close> is exact and ToString
  prints the decimal digits. Fractions and larger magnitudes need the double nearest to
  a decimal literal and are outside the model. An object is the list of its own
  properties in the order \<^verbatim>\<open>Object.entries\<close> visits them, each key once.
\<close>

datatype json =
    JUndefined
  | JNull
  | JBool bool
  | JNum "54 word"
  | JStr jsstring
  | JArr "json list"
  | JObj "(jsstring \<times> json) list"

datatype js_error = TypeError

text \<open>ToBoolean: what \<^verbatim>\<open>||\<close>, \<^verbatim>\<open>&&\<close>, \<^verbatim>\<open>?:\<close> and \<^verbatim>\<open>if\<close> test.\<close>

fun truthy :: "json \<Rightarrow> bool" where
  "truthy JUndefined = False"
| "truthy JNull = False"
| "truthy (JBool b) = b"
| "truthy (JNum n) = (n \<noteq> 0)"
| "truthy (JStr s) = (s \<noteq> [])"
| "truthy (JArr xs) = True"
| "truthy (JObj kvs) = True"

text \<open>The decimal digits of a natural number, most significant first.\<close>

function digits :: "nat \<Rightarrow> jsstring" where
  "digits n =
     (if n < 10 then [0x30 + of_nat n]
      else digits (n div 10) @ [0x30 + of_nat (n mod 10)])"
  by pat_completeness auto
termination
  by (relation "measure (\<lambda>n. n)") auto

declare digits.simps [simp del]

text \<open>A number in decimal, as ToString prints a safe integer.\<close>

definition decimal :: "54 word \<Rightarrow> jsstring" where
  "decimal n = (if sint n < 0 then js ''-'' @ digits (nat (- sint n)) else digits (nat (sint n)))"

text \<open>The results of a list of conversions, or the first error among them.\<close>

fun all_or_error :: "(js_error + 'a) list \<Rightarrow> js_error + 'a list" where
  "all_or_error [] = Inr []"
| "all_or_error (Inl e # rs) = Inl e"
| "all_or_error (Inr x # rs) =
     (case all_or_error rs of Inl e \<Rightarrow> Inl e | Inr xs \<Rightarrow> Inr (x # xs))"

text \<open>
  ToString, as a template literal \<^verbatim>\<open>`${v}`\<close> and a computed property key
  \<^verbatim>\<open>o[v]\<close> apply it. An array is its elements joined by commas, where
  \<^verbatim>\<open>null\<close> and \<^verbatim>\<open>undefined\<close> elements give the empty string. An object is
  converted by the \<^verbatim>\<open>toString\<close> it finds: the inherited one gives
  \<^verbatim>\<open>[object Object]\<close>, but an own property of that name, which in a parsed value is
  never a function, hides it; then \<^verbatim>\<open>valueOf\<close> gives no primitive either and the
  conversion throws a TypeError.
\<close>

fun to_string :: "json \<Rightarrow> js_error + jsstring" where
  "to_string JUndefined = Inr (js ''undefined'')"
| "to_string JNull = Inr (js ''null'')"
| "to_string (JBool b) = Inr (if b then js ''true'' else js ''false'')"
| "to_string (JNum n) = Inr (decimal n)"
| "to_string (JStr s) = Inr s"
| "to_string (JArr xs) =
     (case all_or_error
             (map (\<lambda>x. if x = JUndefined \<or> x = JNull then Inr [] else to_string x) xs) of
        Inl e \<Rightarrow> Inl e
      | Inr ss \<Rightarrow> Inr (join (js '','') ss))"
| "to_string (JObj kvs) =
     (case map_of kvs (js ''toString'') of
        None \<Rightarrow> Inr (js ''[object Object]'')
      | Some v \<Rightarrow> Inl TypeError)"

text \<open>
  An element of an array as \<^verbatim>\<open>Array.prototype.join\<close> writes it, and the join of
  an array.
\<close>

definition elem_string :: "json \<Rightarrow> js_error + jsstring" where
  "elem_string x = (if x = JUndefined \<or> x = JNull then Inr [] else to_string x)"

definition array_join :: "jsstring \<Rightarrow> json list \<Rightarrow> js_error + jsstring" where
  "array_join sep xs =
     (case all_or_error (map elem_string xs) of
        Inl e \<Rightarrow> Inl e
      | Inr ss \<Rightarrow> Inr (join sep ss))"

text \<open>
  \<^verbatim>\<open>Object.entries(o)\<close> of a value that is not \<^verbatim>\<open>null\<close> or
  \<^verbatim>\<open>undefined\<close>: an array and a string have their indices as keys, a number and
  a boolean have no own property.
\<close>

fun entries :: "json \<Rightarrow> (jsstring \<times> json) list" where
  "entries (JObj kvs) = kvs"
| "entries (JArr xs) = zip (map digits [0..<length xs]) xs"
| "entries (JStr s) = zip (map digits [0..<length s]) (map (\<lambda>c. JStr [c]) s)"
| "entries v = []"

text \<open>
  The own property of a name, if the value has one: an entry, or the
  \<^verbatim>\<open>length\<close> of an array or a string.
\<close>

fun own_length :: "json \<Rightarrow> json option" where
  "own_length (JArr xs) = Some (JNum (of_nat (length xs)))"
| "own_length (JStr s) = Some (JNum (of_nat (length s)))"
| "own_length v = None"

definition own :: "json \<Rightarrow> jsstring \<Rightarrow> json option" where
  "own v k =
     (case map_of (entries v) k of
        Some x \<Rightarrow> Some x
      | None \<Rightarrow> if k = js ''length'' then own_length v else None)"

text \<open>
  Property read \<^verbatim>\<open>o.name\<close> with one of the names the dashboard spells out:
  \<^verbatim>\<open>count\<close>, \<^verbatim>\<open>proxies\<close>, \<^verbatim>\<open>success\<close>, \<^verbatim>\<open>message\<close>,
  \<^verbatim>\<open>token_channels\<close>, \<^verbatim>\<open>channel_cooldowns\<close>, \<^verbatim>\<open>default_cooldown\<close>,
  \<^verbatim>\<open>tokens\<close>, \<^verbatim>\<open>channels\<close>, \<^verbatim>\<open>advertisement_message\<close>,
  \<^verbatim>\<open>interval_minutes\<close> and \<^verbatim>\<open>length\<close>.
  It is a TypeError on \<^verbatim>\<open>null\<close> and \<^verbatim>\<open>undefined\<close>. None of these names
  is a member that a parsed value inherits from a built-in prototype (an array and a
  string have \<^verbatim>\<open>length\<close> as an own property), so the own property decides,
  and \<^verbatim>\<open>undefined\<close> is read when there is none.
\<close>

fun get :: "json \<Rightarrow> jsstring \<Rightarrow> js_error + json" where
  "get JUndefined k = Inl TypeError"
| "get JNull k = Inl TypeError"
| "get v k = Inr (case own v k of Some x \<Rightarrow> x | None \<Rightarrow> JUndefined)"







section \<open>The dashboard: static/js/app.js\<close>

text \<open>
  Each \<^verbatim>\<open>async function\<close> of the dashboard is a function from what it reads (the
  textarea, the operator's answer to \<^verbatim>\<open>confirm\<close>, the outcome of its
  \<^verbatim>\<open>fetch\<close>, the cached \<^verbatim>\<open>currentConfig\<close>) to the list of effects it has,
  in program order. The elements it looks up by id are taken to exist.
\<close>

datatype toast_type = Success | Error

text \<open>
  The outcome of \<^verbatim>\<open>await fetch(...)\<close> followed by \<^verbatim>\<open>await response.json()\<close>:
  either one of them rejects, or the body parses to a value.
\<close>

datatype fetch_result = Rejected | Json json

text \<open>
  What is put into the list of destinations: the notice that there is none, or the item
  of a destination, given by the three strings that the template of lines 175 to 188
  interpolates into its fixed markup.
\<close>

datatype node =
    Notice jsstring
  | ListItem (title: jsstring) (meta: jsstring) (onclick: jsstring)

datatype effect =
    ShowToast json toast_type
  | Confirm jsstring
  | Post string json
  | ConsoleError string
  | SetTextContent string jsstring
  | SetPlaceholder string jsstring
  | SetValue string jsstring
  | SetInnerHTML string "node list"
  | AppendChild string node
  | SetColor string string
  | Call string

text \<open>The \<^verbatim>\<open>catch (error)\<close> block shared by the functions below.\<close>

definition catch :: "string \<Rightarrow> effect list" where
  "catch msg = [ConsoleError (msg @ '':''), ShowToast (JStr (js msg)) Error]"


text \<open>\<^verbatim>\<open>saveTokens\<close>, lines 367 to 399.\<close>

definition saveTokens :: "jsstring \<Rightarrow> bool \<Rightarrow> fetch_result \<Rightarrow> effect list" where
  "saveTokens v confirmed r =
     (let tokens = parse_lines v in
      if length tokens = 0 then [ShowToast (JStr (js ''No tokens to save'')) Error]
      else
        Confirm (js ''Save '' @ digits (length tokens) @ js '' token(s)?'') #
        (if \<not> confirmed then []
         else
           Post ''/api/tokens'' (JObj [(js ''tokens'', JArr (map JStr tokens))]) #
           (case r of
              Rejected \<Rightarrow> catch ''Failed to save tokens''
            | Json result \<Rightarrow>
                (case get result (js ''success'') of
                   Inl e \<Rightarrow> catch ''Failed to save tokens''
                 | Inr ok \<Rightarrow>
                     if truthy ok then
                       (case get result (js ''message'') of
                          Inl e \<Rightarrow> catch ''Failed to save tokens''
                        | Inr m \<Rightarrow>
                            [ShowToast m Success, SetValue ''tokens-textarea'' [],
                             Call ''loadTokens'', Call ''loadStats''])
                     else [ShowToast (JStr (js ''Failed to save tokens'')) Error]))))"

text \<open>
  \<^verbatim>\<open>loadProxies\<close>, lines 402 to 414. Line 407 writes the counter, unless its
  template literal throws; line 408 then joins the array, and throws when
  \<^verbatim>\<open>proxies\<close> is not an array or an element cannot be converted.
\<close>

definition loadProxies :: "fetch_result \<Rightarrow> effect list" where
  "loadProxies r =
     (case r of
        Rejected \<Rightarrow> catch ''Failed to load proxies''
      | Json data \<Rightarrow>
          (case get data (js ''count'') of
             Inl e \<Rightarrow> catch ''Failed to load proxies''
           | Inr c \<Rightarrow>
               (case to_string c of
                  Inl e \<Rightarrow> catch ''Failed to load proxies''
                | Inr s \<Rightarrow>
                    SetTextContent ''proxy-count'' (s @ js '' proxies'') #
                    (case get data (js ''proxies'') of
                       Inr (JArr xs) \<Rightarrow>
                         (case array_join [NL] xs of
                            Inl e \<Rightarrow> catch ''Failed to load proxies''
                          | Inr text \<Rightarrow> [SetValue ''proxies-textarea'' text])
                     | _ \<Rightarrow> catch ''Failed to load proxies''))))"

text \<open>\<^verbatim>\<open>saveProxies\<close>, lines 417 to 441.\<close>

definition saveProxies :: "jsstring \<Rightarrow> fetch_result \<Rightarrow> effect list" where
  "saveProxies v r =
     (let proxies = parse_lines v in
      Post ''/api/proxies'' (JObj [(js ''proxies'', JArr (map JStr proxies))]) #
      (case r of
         Rejected \<Rightarrow> catch ''Failed to save proxies''
       | Json result \<Rightarrow>
           (case get result (js ''success'') of
              Inl e \<Rightarrow> catch ''Failed to save proxies''
            | Inr ok \<Rightarrow>
                if truthy ok then
                  (case get result (js ''message'') of
                     Inl e \<Rightarrow> catch ''Failed to save proxies''
                   | Inr m \<Rightarrow> [ShowToast m Success, Call ''loadProxies'', Call ''loadStats''])
                else [ShowToast (JStr (js ''Failed to save proxies'')) Error])))"

















section \<open>Reading the requests and the lines\<close>

text \<open>The POST requests among the effects: their URL and JSON body, in order.\<close>

fun posts :: "effect list \<Rightarrow> (string \<times> json) list" where
  "posts [] = []"
| "posts (Post url body # es) = (url, body) # posts es"
| "posts (e # es) = posts es"

text \<open>A blank line: nothing but white space.\<close>

definition blank :: "jsstring \<Rightarrow> bool" where
  "blank l = list_all is_ws l"

text \<open>A line that starts with \<^verbatim>\<open>#\<close>: its first code unit is the hash sign.\<close>

definition starts_with_hash :: "jsstring \<Rightarrow> bool" where
  "starts_with_hash l = (case l of [] \<Rightarrow> False | c # cs \<Rightarrow> c = HASH)"

text \<open>A line whose first code unit after its leading white space is \<^verbatim>\<open>#\<close>.\<close>

definition hash_after_space :: "jsstring \<Rightarrow> bool" where
  "hash_after_space l = starts_with_hash (dropWhile is_ws l)"

text \<open>
  The lines of a textarea that are neither blank nor start with \<^verbatim>\<open>#\<close>, in their
  order: the list that full-list replace is to send.
\<close>

definition kept_lines :: "jsstring \<Rightarrow> jsstring list" where
  "kept_lines v = filter (\<lambda>l. \<not> blank l \<and> \<not> starts_with_hash l) (split NL v)"










section \<open>The Advertiser Engine\<close>

text \<open>
  The engine behind the REST interface is not among the repository's source files; its
  components are written down here from the specification, sections 3 and 4.
\<close>

subsection \<open>Cooldown Registry\<close>

type_synonym destination_id = nat
type_synonym time = int

text \<open>
  Modelled from the spec: the Destination record of section 3, without its id (the key of
  the registry). Timestamps and cooldowns are integers in one unit, minutes.
  \<open>cooldown_minutes\<close> is \<open>None\<close> while unset, \<open>last_sent_at\<close> is \<open>None\<close> until the
  first successful send.
\<close>

record destination =
  cooldown_minutes :: "time option"
  last_sent_at :: "time option"
  claimed :: bool

text \<open>
  Modelled from the spec: the state of the Cooldown Registry of section 4.1, the
  configured \<open>default_cooldown\<close> and one Destination for every id.
\<close>

record registry =
  default_cooldown_minutes :: time
  destinations :: "destination_id \<Rightarrow> destination"

text \<open>
  Modelled from the spec: the result of \<open>try_claim\<close>, \<open>Granted | Denied(remaining)\<close>.
  A denial for a send in flight has no remaining wait.
\<close>

datatype claim_result = Granted | Denied "time option"

text \<open>
  Modelled from the spec: "Cooldown defaults to a configured \<open>default_cooldown\<close> when
  unset."
\<close>

definition cooldown :: "registry \<Rightarrow> destination_id \<Rightarrow> time" where
  "cooldown reg d =
     (case cooldown_minutes (destinations reg d) of
        None \<Rightarrow> default_cooldown_minutes reg
      | Some c \<Rightarrow> c)"

text \<open>
  Modelled from the spec: \<open>try_claim\<close> of section 4.1. "If \<open>claimed == true\<close>, deny
  (another send in flight). Else if \<open>now - last_sent_at < cooldown\<close>, deny with
  remaining wait. Else set \<open>claimed = true\<close> and grant."
\<close>

definition try_claim :: "registry \<Rightarrow> destination_id \<Rightarrow> time \<Rightarrow> claim_result \<times> registry" where
  "try_claim reg d now =
     (let dest = destinations reg d in
      if claimed dest then (Denied None, reg)
      else
        (case last_sent_at dest of
           Some t \<Rightarrow>
             if now - t < cooldown reg d then (Denied (Some (cooldown reg d - (now - t))), reg)
             else (Granted, reg\<lparr>destinations := (destinations reg)(d := dest\<lparr>claimed := True\<rparr>)\<rparr>)
         | None \<Rightarrow>
             (Granted, reg\<lparr>destinations := (destinations reg)(d := dest\<lparr>claimed := True\<rparr>)\<rparr>)))"

text \<open>
  Modelled from the spec: \<open>release\<close> of section 4.1. "Clears \<open>claimed\<close>; if
  \<open>success\<close>, sets \<open>last_sent_at = now\<close>; if not, \<open>last_sent_at\<close> is left unchanged."
\<close>

definition release :: "registry \<Rightarrow> destination_id \<Rightarrow> bool \<Rightarrow> time \<Rightarrow> registry" where
  "release reg d success now =
     (let dest = (destinations reg d)\<lparr>claimed := False\<rparr> in
      reg\<lparr>destinations :=
            (destinations reg)
              (d := if success then dest\<lparr>last_sent_at := Some now\<rparr> else dest)\<rparr>)"

text \<open>
  Modelled from the spec: the calls that Account Workers make on the registry. Each call
  is atomic (section 5), so concurrent workers give some sequence of calls.
\<close>

datatype registry_call =
    TryClaim destination_id time
  | Release destination_id bool time

text \<open>
  Modelled from the spec: the registry after one call of section 4.1, and after a
  sequence of calls.
\<close>

fun registry_step :: "registry \<Rightarrow> registry_call \<Rightarrow> registry" where
  "registry_step reg (TryClaim d now) = snd (try_claim reg d now)"
| "registry_step reg (Release d success now) = release reg d success now"

definition registry_run :: "registry \<Rightarrow> registry_call list \<Rightarrow> registry" where
  "registry_run reg calls = foldl registry_step reg calls"

text \<open>A call that releases the destination.\<close>

fun releases :: "destination_id \<Rightarrow> registry_call \<Rightarrow> bool" where
  "releases d (TryClaim d' now) = False"
| "releases d (Release d' success now) = (d' = d)"

text \<open>
  Modelled from the spec: the registry at engine start (section 3): no destination has
  been sent to, nothing is claimed, and no destination has a cooldown of its own.
\<close>

definition fresh_registry :: "time \<Rightarrow> registry" where
  "fresh_registry dflt =
     \<lparr>default_cooldown_minutes = dflt,
      destinations = (\<lambda>d. \<lparr>cooldown_minutes = None, last_sent_at = None, claimed = False\<rparr>)\<rparr>"

text \<open>
  The cooldown of a destination has elapsed at a time: it was never sent to, or the last
  successful send is at least the cooldown back.
\<close>

definition elapsed :: "registry \<Rightarrow> destination_id \<Rightarrow> time \<Rightarrow> bool" where
  "elapsed reg d now =
     (case last_sent_at (destinations reg d) of
        None \<Rightarrow> True
      | Some t \<Rightarrow> cooldown reg d \<le> now - t)"

subsection \<open>Run Controller\<close>

text \<open>
  Modelled from the spec: the health of an Account (section 3) and how an initial
  \<open>connect()\<close> resolves (section 4.3): ready, an invalid credential, or a transient
  failure that outlasted its retries.
\<close>

datatype health = Active | Invalid | RateLimited | Disabled

datatype connect_result = Ready | CredentialInvalid | ConnectTransient

text \<open>
  Modelled from the spec: the health a connect leaves (section 4.3). A ready account is
  \<open>Active\<close>, an invalid credential sets \<open>Invalid\<close>, a transient failure past its
  retries sets \<open>Disabled\<close>.
\<close>

fun health_after :: "connect_result \<Rightarrow> health" where
  "health_after Ready = Active"
| "health_after CredentialInvalid = Invalid"
| "health_after ConnectTransient = Disabled"

text \<open>
  Modelled from the spec: the states of the Run Controller's state machine (section 4.5),
  \<open>Stopped \<rightarrow> Starting \<rightarrow> Running \<rightarrow> Stopping \<rightarrow> Stopped\<close>, where \<open>Stopped\<close> carries the
  error it reports, if any: the two failures that are fatal to a run (section 7).
\<close>

datatype stop_error = ConfigInvalid | NoActiveAccounts

datatype run_state = Stopped "stop_error option" | Starting | Running | Stopping

text \<open>
  Modelled from the spec: what a start request is validated against. "At least one
  account with health \<open>\<noteq> Invalid\<close>; configuration message is non-empty; proxy pool
  reachable if \<open>use_proxies\<close>."
\<close>

record start_request =
  account_health :: "health list"
  advertisement_message :: string
  use_proxies :: bool
  proxy_pool_reachable :: bool

text \<open>
  Modelled from the spec: the validation of the edge \<open>Stopped \<rightarrow> Starting\<close>.
\<close>

definition validate :: "start_request \<Rightarrow> bool" where
  "validate rq \<longleftrightarrow>
     (\<exists>h \<in> set (account_health rq). h \<noteq> Invalid) \<and>
     advertisement_message rq \<noteq> [] \<and>
     (use_proxies rq \<longrightarrow> proxy_pool_reachable rq)"

text \<open>
  Modelled from the spec: the events of section 4.5. A start or stop request in a state
  that has no edge for it is a no-op, as the idempotency rule says.
\<close>

datatype controller_event =
    StartRequest start_request
  | ConnectsResolved "connect_result list"
  | StopRequest
  | Drained

text \<open>
  Modelled from the spec: the edges of section 4.5. "Any validation failure transitions
  directly back to \<open>Stopped\<close> and surfaces the failure reason"; \<open>Starting \<rightarrow> Running\<close>
  "once all initial account \<open>connect()\<close> calls have resolved and at least one account
  is Active. If zero accounts reach Active, transition to \<open>Stopped(error)\<close>."
\<close>

fun controller_step :: "run_state \<Rightarrow> controller_event \<Rightarrow> run_state" where
  "controller_step (Stopped e) (StartRequest rq) =
     (if validate rq then Starting else Stopped (Some ConfigInvalid))"
| "controller_step Starting (ConnectsResolved rs) =
     (if Active \<in> set (map health_after rs) then Running else Stopped (Some NoActiveAccounts))"
| "controller_step Running StopRequest = Stopping"
| "controller_step Stopping Drained = Stopped None"
| "controller_step s ev = s"

text \<open>The states the controller passes through, the first one included.\<close>

fun controller_trace :: "run_state \<Rightarrow> controller_event list \<Rightarrow> run_state list" where
  "controller_trace s [] = [s]"
| "controller_trace s (ev # evs) = s # controller_trace (controller_step s ev) evs"

text \<open>An event that resolves the connects with some account ready.\<close>

fun resolves_active :: "controller_event \<Rightarrow> bool" where
  "resolves_active (ConnectsResolved rs) = (Ready \<in> set rs)"
| "resolves_active ev = False"

subsection \<open>Dispatch Scheduler and Stats\<close>

text \<open>
  Modelled from the spec: RuntimeStats and LogEntry of section 3, and the outcome of a
  send (sections 4.3 and 7); a send that timed out or was cancelled is a failure.
\<close>

record runtime_stats =
  total_sent :: nat
  active_accounts :: nat
  total_destinations :: nat
  uptime_start :: time
  last_activity_at :: "time option"

datatype level = INFO | WARN | ERROR

record log_entry =
  timestamp :: time
  log_level :: level
  log_message :: string

datatype send_error =
    SendPermissionDenied
  | SendRateLimited
  | SendTransient
  | SendTimeout
  | SendCancelled

datatype send_result = Sent | SendFailed send_error

text \<open>
  Modelled from the spec: the Aggregator's \<open>append\<close> of section 4.6, on a ring buffer of
  fixed capacity where the newest entry overwrites the oldest.
\<close>

definition log_append :: "nat \<Rightarrow> log_entry list \<Rightarrow> log_entry \<Rightarrow> log_entry list" where
  "log_append capacity entries_so_far e =
     (let es = entries_so_far @ [e] in drop (length es - capacity) es)"

text \<open>
  Modelled from the spec: the engine's state, the controller's state, the registry, the
  stats and the log.
\<close>

record engine =
  controller :: run_state
  cooldown_registry :: registry
  stats :: runtime_stats
  log_capacity :: nat
  log_entries :: "log_entry list"

text \<open>
  Modelled from the spec: step 3 of the scheduler's cycle (section 4.4). "On completion
  of each send, call \<open>release(success, now)\<close>, update Stats (\<open>total_sent\<close> incremented
  only on success; \<open>last_activity_at\<close> updated on every attempt), and append a
  LogEntry." The level and the message of the entry are the caller's.
\<close>

definition complete_send ::
  "engine \<Rightarrow> destination_id \<Rightarrow> send_result \<Rightarrow> level \<Rightarrow> string \<Rightarrow> time \<Rightarrow> engine" where
  "complete_send eng d r lvl msg now =
     eng\<lparr>cooldown_registry := release (cooldown_registry eng) d (r = Sent) now,
         stats := (stats eng)
           \<lparr>total_sent := total_sent (stats eng) + (if r = Sent then 1 else 0),
            last_activity_at := Some now\<rparr>,
         log_entries := log_append (log_capacity eng) (log_entries eng)
           \<lparr>timestamp = now, log_level = lvl, log_message = msg\<rparr>\<rparr>"

text \<open>
  Modelled from the spec: the steps of the engine. A claim is step 1 of the cycle, a
  completion is step 3, and a controller event moves the state machine; entering
  \<open>Starting\<close> begins a new run and resets the counters to zero (section 4.6).
\<close>

datatype engine_step =
    Claim destination_id time
  | Complete destination_id send_result level string time
  | Control controller_event time

text \<open>
  Modelled from the spec: the engine after one step, and after a sequence of steps.
\<close>

fun engine_next :: "engine \<Rightarrow> engine_step \<Rightarrow> engine" where
  "engine_next eng (Claim d now) =
     eng\<lparr>cooldown_registry := snd (try_claim (cooldown_registry eng) d now)\<rparr>"
| "engine_next eng (Complete d r lvl msg now) = complete_send eng d r lvl msg now"
| "engine_next eng (Control ev now) =
     (let s = controller_step (controller eng) ev in
      if s = Starting \<and> controller eng \<noteq> Starting
      then eng\<lparr>controller := s,
               stats := (stats eng)\<lparr>total_sent := 0, uptime_start := now,
                                     last_activity_at := None\<rparr>\<rparr>
      else eng\<lparr>controller := s\<rparr>)"

definition engine_run :: "engine \<Rightarrow> engine_step list \<Rightarrow> engine" where
  "engine_run eng steps = foldl engine_next eng steps"

text \<open>A step that begins a new run.\<close>

fun starts_run :: "engine_step \<Rightarrow> bool" where
  "starts_run (Control (StartRequest rq) now) = True"
| "starts_run st = False"

text \<open>A step that is the completion of a successful send.\<close>

fun sent_step :: "engine_step \<Rightarrow> bool" where
  "sent_step (Complete d Sent lvl msg now) = True"
| "sent_step st = False"

text \<open>
  Modelled from the spec: the engine when a run has just reached \<open>Running\<close>: counters
  at zero (section 4.6), an empty log, the registry as at engine start.
\<close>

definition engine_at_start :: "time \<Rightarrow> nat \<Rightarrow> nat \<Rightarrow> nat \<Rightarrow> time \<Rightarrow> engine" where
  "engine_at_start dflt capacity accounts dests now =
     \<lparr>controller = Running,
      cooldown_registry = fresh_registry dflt,
      stats = \<lparr>total_sent = 0, active_accounts = accounts, total_destinations = dests,
                uptime_start = now, last_activity_at = None\<rparr>,
      log_capacity = capacity,
      log_entries = []\<rparr>"

section \<open>Properties of the dashboard\<close>

lemma split_not_Nil: "split sep s \<noteq> []"
  by (induction s) (auto split: list.splits)

lemma join_Cons_Cons: "join [sep] ((c # a) # ls) = c # join [sep] (a # ls)"
  by (cases ls) auto

lemma join_split: "join [sep] (split sep s) = s"
proof (induction s)
  case Nil
  then show ?case by simp
next
  case (Cons c cs)
  show ?case
  proof (cases "c = sep")
    case True
    then show ?thesis using Cons split_not_Nil [of sep cs]
      by (cases "split sep cs") auto
  next
    case False
    then show ?thesis using Cons split_not_Nil [of sep cs]
      by (cases "split sep cs") (auto simp: join_Cons_Cons)
  qed
qed

lemma split_no_sep: "l \<in> set (split sep s) \<Longrightarrow> sep \<notin> set l"
  by (induction s arbitrary: l) (auto split: if_splits list.splits)

lemma split_sep_free: "sep \<notin> set x \<Longrightarrow> split sep x = [x]"
  by (induction x) auto

lemma split_append_sep:
  "sep \<notin> set x \<Longrightarrow> split sep (x @ sep # rest) = x # split sep rest"
  by (induction x) (auto split: list.splits)

lemma split_join:
  "xs \<noteq> [] \<Longrightarrow> \<forall>x \<in> set xs. sep \<notin> set x \<Longrightarrow> split sep (join [sep] xs) = xs"
proof (induction xs)
  case Nil
  then show ?case by simp
next
  case (Cons x xs)
  show ?case
  proof (cases xs)
    case Nil
    then show ?thesis using Cons.prems by (simp add: split_sep_free)
  next
    case (Cons y ys)
    then show ?thesis using Cons.IH Cons.prems by (simp add: split_append_sep)
  qed
qed

lemma dropWhile_all: "(\<forall>x \<in> set (dropWhile P s). P x) \<longleftrightarrow> (\<forall>x \<in> set s. P x)"
proof
  assume a: "\<forall>x \<in> set (dropWhile P s). P x"
  have "dropWhile P s = []"
  proof (rule ccontr)
    assume n: "dropWhile P s \<noteq> []"
    then have "\<not> P (hd (dropWhile P s))" by (rule hd_dropWhile)
    moreover have "hd (dropWhile P s) \<in> set (dropWhile P s)" using n by simp
    ultimately show False using a by blast
  qed
  then show "\<forall>x \<in> set s. P x" by (simp add: dropWhile_eq_Nil_conv)
next
  assume "\<forall>x \<in> set s. P x"
  then show "\<forall>x \<in> set (dropWhile P s). P x" by (auto dest: set_dropWhileD)
qed

lemma trim_Nil_iff: "trim s = [] \<longleftrightarrow> blank s"
  by (simp add: trim_def blank_def list_all_iff dropWhile_eq_Nil_conv dropWhile_all)

lemma startsWith_HASH: "startsWith t [HASH] = starts_with_hash t"
  by (cases t) (auto simp: starts_with_hash_def)

lemma keep_line_eq: "keep_line = (\<lambda>l. \<not> blank l \<and> \<not> starts_with_hash l)"
  by (rule ext) (simp add: keep_line_def trim_Nil_iff startsWith_HASH)

lemma parse_lines_kept: "parse_lines v = kept_lines v"
  by (simp add: parse_lines_def kept_lines_def keep_line_eq)

lemma posts_catch: "posts (catch msg) = []"
  by (simp add: catch_def)

lemma posts_saveProxies:
  "posts (saveProxies v r) =
     [(''/api/proxies'', JObj [(js ''proxies'', JArr (map JStr (kept_lines v)))])]"
  by (simp add: saveProxies_def parse_lines_kept posts_catch Let_def
      split: fetch_result.splits sum.splits)

lemma posts_saveTokens:
  "posts (saveTokens v confirmed r) =
     (if kept_lines v \<noteq> [] \<and> confirmed
      then [(''/api/tokens'', JObj [(js ''tokens'', JArr (map JStr (kept_lines v)))])]
      else [])"
  by (simp add: saveTokens_def parse_lines_kept posts_catch Let_def
      split: fetch_result.splits sum.splits)

text \<open>
  C1, as the code has it. Whatever \<^verbatim>\<open>saveProxies\<close> and \<^verbatim>\<open>saveTokens\<close> send is the
  list of the textarea's newline-delimited lines, in order, without the blank lines and
  without the lines whose first code unit is \<^verbatim>\<open>#\<close>. \<^verbatim>\<open>saveProxies\<close> sends it
  always, \<^verbatim>\<open>saveTokens\<close> when it is not empty and the operator confirms. The lines
  are the pieces between the newlines: joined by newlines they give the input back, and
  none contains a newline.
\<close>

theorem full_list_replace_lines:
  "posts (saveProxies v r) =
     [(''/api/proxies'', JObj [(js ''proxies'', JArr (map JStr (kept_lines v)))])] \<and>
   posts (saveTokens v confirmed r) =
     (if kept_lines v \<noteq> [] \<and> confirmed
      then [(''/api/tokens'', JObj [(js ''tokens'', JArr (map JStr (kept_lines v)))])]
      else []) \<and>
   join [NL] (split NL v) = v \<and>
   (\<forall>l \<in> set (split NL v). NL \<notin> set l)"
  by (simp add: posts_saveProxies posts_saveTokens join_split split_no_sep)

theorem full_list_replace_lines_witness:
  "posts (saveProxies (js ''tok1'' @ [NL] @ [NL] @ js ''#c'' @ [NL] @ js '' #d'' @ [NL] @ js ''tok2'') Rejected) =
     [(''/api/proxies'', JObj [(js ''proxies'', JArr [JStr (js ''tok1''), JStr (js '' #d''), JStr (js ''tok2'')])])] \<and>
   posts (saveTokens (js ''tok1'' @ [NL] @ [NL] @ js ''#c'' @ [NL] @ js '' #d'' @ [NL] @ js ''tok2'') True Rejected) =
     [(''/api/tokens'', JObj [(js ''tokens'', JArr [JStr (js ''tok1''), JStr (js '' #d''), JStr (js ''tok2'')])])]"
proof -
  let ?v = "js ''tok1'' @ [NL] @ [NL] @ js ''#c'' @ [NL] @ js '' #d'' @ [NL] @ js ''tok2''"
  have k: "kept_lines ?v = [js ''tok1'', js '' #d'', js ''tok2'']"
    by code_simp
  show ?thesis
    using full_list_replace_lines [of ?v Rejected True] k by simp
qed

text \<open>
  C1 as stated also drops every line whose first character after leading white space is
  \<^verbatim>\<open>#\<close>. The line \<^verbatim>\<open>" #x"\<close> is such a line, and both functions send it.
\<close>

theorem full_list_replace_counterexample:
  "hash_after_space (js '' #x'') \<and>
   posts (saveProxies (js '' #x'') Rejected) =
     [(''/api/proxies'', JObj [(js ''proxies'', JArr [JStr (js '' #x'')])])] \<and>
   posts (saveTokens (js '' #x'') True Rejected) =
     [(''/api/tokens'', JObj [(js ''tokens'', JArr [JStr (js '' #x'')])])]"
  by code_simp

lemma kept_lines_Nil:
  "(\<forall>l \<in> set (split NL v). blank l \<or> starts_with_hash l) \<Longrightarrow> kept_lines v = []"
  by (auto simp: kept_lines_def filter_empty_conv)

text \<open>
  C8. When every line of the tokens textarea is blank or starts with \<^verbatim>\<open>#\<close>,
  \<^verbatim>\<open>saveTokens\<close> shows the toast "No tokens to save" and does nothing else: it
  issues no POST, whatever the operator would answer and the server would return.
\<close>

theorem saveTokens_nothing_to_save:
  assumes "\<forall>l \<in> set (split NL v). blank l \<or> starts_with_hash l"
  shows "saveTokens v confirmed r = [ShowToast (JStr (js ''No tokens to save'')) Error] \<and>
         posts (saveTokens v confirmed r) = []"
  using kept_lines_Nil [OF assms]
  by (simp add: saveTokens_def parse_lines_kept)

theorem saveTokens_nothing_to_save_witness:
  "split NL (js ''#old'' @ [NL] @ js ''  '') = [js ''#old'', js ''  ''] \<and>
   starts_with_hash (js ''#old'') \<and> blank (js ''  '') \<and>
   saveTokens (js ''#old'' @ [NL] @ js ''  '') True (Json (JObj [(js ''success'', JBool True)])) =
     [ShowToast (JStr (js ''No tokens to save'')) Error] \<and>
   posts (saveTokens (js ''#old'' @ [NL] @ js ''  '') True
            (Json (JObj [(js ''success'', JBool True)]))) = []"
proof -
  have s: "split NL (js ''#old'' @ [NL] @ js ''  '') = [js ''#old'', js ''  '']"
    by code_simp
  have c: "starts_with_hash (js ''#old'')" and b: "blank (js ''  '')"
    by code_simp+
  have h: "\<forall>l \<in> set (split NL (js ''#old'' @ [NL] @ js ''  '')). blank l \<or> starts_with_hash l"
    using s c b by simp
  show ?thesis
    using s c b
      saveTokens_nothing_to_save [OF h, of True "Json (JObj [(js ''success'', JBool True)])"]
    by simp
qed

text \<open>
  C9. When every line of the proxies textarea is blank or starts with \<^verbatim>\<open>#\<close>,
  \<^verbatim>\<open>saveProxies\<close> still issues its POST first, with the empty proxy list as body,
  and issues no other request.
\<close>

theorem saveProxies_posts_empty_list:
  assumes "\<forall>l \<in> set (split NL v). blank l \<or> starts_with_hash l"
  shows "\<exists>rest. saveProxies v r = Post ''/api/proxies'' (JObj [(js ''proxies'', JArr [])]) # rest \<and>
           posts rest = []"
  using kept_lines_Nil [OF assms]
  by (simp add: saveProxies_def parse_lines_kept posts_catch
      split: fetch_result.splits sum.splits)

theorem saveProxies_posts_empty_list_witness:
  "split NL (js '' '' @ [NL] @ js ''# none'') = [js '' '', js ''# none''] \<and>
   blank (js '' '') \<and> starts_with_hash (js ''# none'') \<and>
   (\<exists>rest. saveProxies (js '' '' @ [NL] @ js ''# none'') Rejected =
      Post ''/api/proxies'' (JObj [(js ''proxies'', JArr [])]) # rest \<and> posts rest = [])"
proof -
  have s: "split NL (js '' '' @ [NL] @ js ''# none'') = [js '' '', js ''# none'']"
    by code_simp
  have b: "blank (js '' '')" and c: "starts_with_hash (js ''# none'')"
    by code_simp+
  have h: "\<forall>l \<in> set (split NL (js '' '' @ [NL] @ js ''# none'')). blank l \<or> starts_with_hash l"
    using s c b by simp
  show ?thesis
    using s c b saveProxies_posts_empty_list [OF h, of Rejected] by simp
qed

lemma all_or_error_JStr: "all_or_error (map (elem_string \<circ> JStr) ps) = Inr ps"
  by (induction ps) (simp_all add: elem_string_def)

lemma array_join_JStr: "array_join sep (map JStr ps) = Inr (join sep ps)"
  by (simp add: array_join_def all_or_error_JStr)

text \<open>
  C10. For a response of \<^verbatim>\<open>GET proxies\<close> whose \<^verbatim>\<open>proxies\<close> is an array of
  strings and whose \<^verbatim>\<open>count\<close> converts to a string, \<^verbatim>\<open>loadProxies\<close> writes
  the count into the counter and the entries themselves, joined by newlines, into the
  textarea. Entries without a newline are written verbatim: splitting the textarea's
  value at the newlines gives them back.
\<close>

theorem loadProxies_echoes_entries:
  assumes "get data (js ''count'') = Inr c"
    and "to_string c = Inr s"
    and "get data (js ''proxies'') = Inr (JArr (map JStr ps))"
  shows "loadProxies (Json data) =
           [SetTextContent ''proxy-count'' (s @ js '' proxies''),
            SetValue ''proxies-textarea'' (join [NL] ps)] \<and>
         (ps \<noteq> [] \<and> (\<forall>p \<in> set ps. NL \<notin> set p) \<longrightarrow> split NL (join [NL] ps) = ps)"
  using assms by (simp add: loadProxies_def array_join_JStr split_join)

theorem loadProxies_echoes_entries_witness:
  "loadProxies (Json (JObj [(js ''count'', JNum 2),
      (js ''proxies'', JArr [JStr (js ''10.0.0.1:8080''), JStr (js ''user:pw@10.0.0.2:3128'')])])) =
     [SetTextContent ''proxy-count'' (js ''2 proxies''),
      SetValue ''proxies-textarea'' (js ''10.0.0.1:8080'' @ [NL] @ js ''user:pw@10.0.0.2:3128'')] \<and>
   split NL (js ''10.0.0.1:8080'' @ [NL] @ js ''user:pw@10.0.0.2:3128'') =
     [js ''10.0.0.1:8080'', js ''user:pw@10.0.0.2:3128'']"
proof -
  let ?ps = "[js ''10.0.0.1:8080'', js ''user:pw@10.0.0.2:3128'']"
  let ?data = "JObj [(js ''count'', JNum 2), (js ''proxies'', JArr (map JStr ?ps))]"
  have c: "get ?data (js ''count'') = Inr (JNum 2)" by code_simp
  have t: "to_string (JNum 2) = Inr (js ''2'')" by code_simp
  have p: "get ?data (js ''proxies'') = Inr (JArr (map JStr ?ps))" by code_simp
  have n: "?ps \<noteq> [] \<and> (\<forall>p \<in> set ?ps. NL \<notin> set p)" by code_simp
  have j: "join [NL] ?ps = js ''10.0.0.1:8080'' @ [NL] @ js ''user:pw@10.0.0.2:3128''" by simp
  have a: "js ''2'' @ js '' proxies'' = js ''2 proxies''" by (simp add: js_def)
  show ?thesis
    using loadProxies_echoes_entries [OF c t p] n j a by simp
qed



















section \<open>Properties of the engine\<close>

lemma try_claim_claimed:
  "claimed (destinations reg d) \<Longrightarrow> try_claim reg d now = (Denied None, reg)"
  by (simp add: try_claim_def)

lemma try_claim_Granted:
  "try_claim reg d now = (Granted, reg1) \<Longrightarrow> claimed (destinations reg1 d)"
  by (auto simp: try_claim_def Let_def split: if_splits option.splits)

lemma registry_step_keeps_claimed:
  "claimed (destinations reg d) \<Longrightarrow> \<not> releases d c \<Longrightarrow>
   claimed (destinations (registry_step reg c) d)"
  by (cases c) (auto simp: try_claim_def release_def Let_def split: option.splits)

lemma registry_run_keeps_claimed:
  "claimed (destinations reg d) \<Longrightarrow> \<forall>c \<in> set calls. \<not> releases d c \<Longrightarrow>
   claimed (destinations (registry_run reg calls) d)"
proof (induction calls arbitrary: reg)
  case Nil
  then show ?case by (simp add: registry_run_def)
next
  case (Cons c calls)
  have "claimed (destinations (registry_step reg c) d)"
    using Cons.prems by (simp add: registry_step_keeps_claimed)
  then have "claimed (destinations (registry_run (registry_step reg c) calls) d)"
    using Cons.IH Cons.prems by simp
  then show ?case by (simp add: registry_run_def)
qed

text \<open>
  C4. When \<open>try_claim\<close> on a destination is granted, a second \<open>try_claim\<close> on that
  destination, at any time and after any calls on the registry that do not release that
  destination, is denied and changes nothing: no second grant is given while the first
  is outstanding.
\<close>

theorem second_claim_denied:
  assumes "try_claim reg d now = (Granted, reg1)"
    and "\<forall>c \<in> set calls. \<not> releases d c"
  shows "try_claim (registry_run reg1 calls) d now' = (Denied None, registry_run reg1 calls)"
  using assms
  by (simp add: try_claim_Granted registry_run_keeps_claimed try_claim_claimed)

theorem second_claim_denied_witness:
  "fst (try_claim (fresh_registry 60) 1 0) = Granted \<and>
   fst (try_claim
          (registry_run (snd (try_claim (fresh_registry 60) 1 0))
             [TryClaim 2 5, Release 2 True 6, TryClaim 1 7])
          1 100) = Denied None"
proof -
  obtain reg1 where g: "try_claim (fresh_registry 60) 1 0 = (Granted, reg1)"
    by (simp add: try_claim_def fresh_registry_def)
  have c: "\<forall>c \<in> set [TryClaim 2 5, Release 2 True 6, TryClaim 1 7]. \<not> releases 1 c"
    by simp
  show ?thesis
    using g second_claim_denied [OF g c, of 100] by simp
qed

text \<open>
  C5. A \<open>release\<close> with \<open>success = false\<close> clears \<open>claimed\<close>, leaves \<open>last_sent_at\<close>
  and the cooldown of the destination as they were, and changes no other destination and
  not the default. A \<open>try_claim\<close> after it is granted when the cooldown had elapsed at
  an earlier time, and when the cooldown is zero and no send lies in the future.
\<close>

theorem failed_release_frame:
  "claimed (destinations (release reg d False now) d) = False \<and>
   last_sent_at (destinations (release reg d False now) d) = last_sent_at (destinations reg d) \<and>
   cooldown_minutes (destinations (release reg d False now) d) =
     cooldown_minutes (destinations reg d) \<and>
   (\<forall>d'. d' \<noteq> d \<longrightarrow> destinations (release reg d False now) d' = destinations reg d') \<and>
   default_cooldown_minutes (release reg d False now) = default_cooldown_minutes reg \<and>
   (elapsed reg d now0 \<and> now0 \<le> now' \<longrightarrow>
      fst (try_claim (release reg d False now) d now') = Granted) \<and>
   (cooldown reg d = 0 \<and> (\<forall>t. last_sent_at (destinations reg d) = Some t \<longrightarrow> t \<le> now') \<longrightarrow>
      fst (try_claim (release reg d False now) d now') = Granted)"
  by (auto simp: release_def try_claim_def elapsed_def cooldown_def Let_def
      split: option.splits)

theorem failed_release_frame_witness:
  "elapsed (snd (try_claim (fresh_registry 60) 1 0)) 1 0 \<and>
   fst (try_claim (release (snd (try_claim (fresh_registry 60) 1 0)) 1 False 3) 1 3) = Granted \<and>
   last_sent_at (destinations (release (snd (try_claim (fresh_registry 60) 1 0)) 1 False 3) 1) = None \<and>
   cooldown (release (fresh_registry 0) 1 True 5) 1 = 0 \<and>
   last_sent_at (destinations (release (fresh_registry 0) 1 True 5) 1) = Some 5 \<and>
   fst (try_claim (release (release (fresh_registry 0) 1 True 5) 1 False 5) 1 5) = Granted"
proof -
  let ?reg = "snd (try_claim (fresh_registry 60) 1 0)"
  let ?zero = "release (fresh_registry 0) 1 True 5"
  have e: "elapsed ?reg 1 0"
    by (simp add: elapsed_def try_claim_def fresh_registry_def)
  have l: "last_sent_at (destinations ?reg 1) = None"
    by (simp add: try_claim_def fresh_registry_def)
  have z: "cooldown ?zero 1 = 0"
    by (simp add: cooldown_def release_def fresh_registry_def)
  have t: "last_sent_at (destinations ?zero 1) = Some 5"
    by (simp add: release_def fresh_registry_def)
  show ?thesis
    using e l z t failed_release_frame [of ?reg 1 3 0 3] failed_release_frame [of ?zero 1 5 0 5]
    by simp
qed

lemma health_after_Active: "Active \<in> health_after ` set rs \<longleftrightarrow> Ready \<in> set rs"
proof (induction rs)
  case Nil
  then show ?case by simp
next
  case (Cons r rs)
  then show ?case by (cases r) auto
qed

lemma controller_step_Running:
  "s \<noteq> Running \<Longrightarrow> \<not> resolves_active ev \<Longrightarrow> controller_step s ev \<noteq> Running"
  by (cases s; cases ev) (simp_all add: health_after_Active)

lemma controller_trace_no_Running:
  "s \<noteq> Running \<Longrightarrow> \<forall>ev \<in> set evs. \<not> resolves_active ev \<Longrightarrow>
   Running \<notin> set (controller_trace s evs)"
proof (induction evs arbitrary: s)
  case Nil
  then show ?case by simp
next
  case (Cons ev evs)
  have "controller_step s ev \<noteq> Running"
    using Cons.prems by (simp add: controller_step_Running)
  then have "Running \<notin> set (controller_trace (controller_step s ev) evs)"
    using Cons.IH Cons.prems by simp
  then show ?case using Cons.prems by auto
qed

text \<open>
  C6. When the initial connects resolve with no account Active, the controller goes from
  \<open>Starting\<close> to \<open>Stopped\<close> with the error \<open>NoActiveAccounts\<close>, and a start from
  \<open>Stopped\<close> with such connects never passes through \<open>Running\<close>, whatever follows
  that is not another resolution with an Active account.
\<close>

theorem zero_active_stops_with_error:
  assumes "Active \<notin> set (map health_after rs)"
    and "\<forall>ev \<in> set evs. \<not> resolves_active ev"
  shows "controller_step Starting (ConnectsResolved rs) = Stopped (Some NoActiveAccounts) \<and>
         Running \<notin> set (controller_trace (Stopped e) (StartRequest rq # ConnectsResolved rs # evs))"
proof -
  have "\<forall>ev \<in> set (StartRequest rq # ConnectsResolved rs # evs). \<not> resolves_active ev"
    using assms by (simp add: health_after_Active)
  then have "Running \<notin> set (controller_trace (Stopped e) (StartRequest rq # ConnectsResolved rs # evs))"
    by (intro controller_trace_no_Running) simp_all
  then show ?thesis using assms(1) by simp
qed

theorem zero_active_stops_with_error_witness:
  "controller_step Starting (ConnectsResolved [CredentialInvalid, ConnectTransient]) =
     Stopped (Some NoActiveAccounts) \<and>
   controller_trace (Stopped None)
     [StartRequest \<lparr>account_health = [Disabled, Invalid], advertisement_message = ''hello'',
                    use_proxies = False, proxy_pool_reachable = False\<rparr>,
      ConnectsResolved [CredentialInvalid, ConnectTransient], StopRequest] =
     [Stopped None, Starting, Stopped (Some NoActiveAccounts), Stopped (Some NoActiveAccounts)]"
proof -
  have a: "Active \<notin> set (map health_after [CredentialInvalid, ConnectTransient])"
    by simp
  have b: "\<forall>ev \<in> set [StopRequest]. \<not> resolves_active ev"
    by simp
  have t: "controller_trace (Stopped None)
     [StartRequest \<lparr>account_health = [Disabled, Invalid], advertisement_message = ''hello'',
                    use_proxies = False, proxy_pool_reachable = False\<rparr>,
      ConnectsResolved [CredentialInvalid, ConnectTransient], StopRequest] =
     [Stopped None, Starting, Stopped (Some NoActiveAccounts), Stopped (Some NoActiveAccounts)]"
    by (simp add: validate_def)
  show ?thesis
    using zero_active_stops_with_error [OF a b] t by simp
qed

lemma controller_step_Starting:
  "controller_step s ev = Starting \<Longrightarrow> s \<noteq> Starting \<Longrightarrow> \<exists>rq. ev = StartRequest rq"
  by (cases s; cases ev) (auto split: if_splits)

lemma total_sent_next:
  "\<not> starts_run st \<Longrightarrow>
   total_sent (stats (engine_next eng st)) = total_sent (stats eng) + (if sent_step st then 1 else 0)"
proof (cases st)
  case (Claim d now)
  then show ?thesis by simp
next
  case (Complete d r lvl msg now)
  then show ?thesis by (cases r) (simp_all add: complete_send_def)
next
  case (Control ev now)
  assume n: "\<not> starts_run st"
  have "\<nexists>rq. ev = StartRequest rq"
    using n Control by (cases ev) simp_all
  then have "\<not> (controller_step (controller eng) ev = Starting \<and> controller eng \<noteq> Starting)"
    using controller_step_Starting [of "controller eng" ev] by blast
  then show ?thesis using Control by (auto simp: Let_def)
qed

lemma total_sent_run:
  "\<forall>st \<in> set steps. \<not> starts_run st \<Longrightarrow>
   total_sent (stats (engine_run eng steps)) =
     total_sent (stats eng) + length (filter sent_step steps)"
proof (induction steps arbitrary: eng)
  case Nil
  then show ?case by (simp add: engine_run_def)
next
  case (Cons st steps)
  have "total_sent (stats (engine_run (engine_next eng st) steps)) =
          total_sent (stats (engine_next eng st)) + length (filter sent_step steps)"
    using Cons.IH Cons.prems by simp
  moreover have "total_sent (stats (engine_next eng st)) =
          total_sent (stats eng) + (if sent_step st then 1 else 0)"
    using Cons.prems by (simp add: total_sent_next)
  ultimately show ?case by (simp add: engine_run_def)
qed

lemma engine_run_append:
  "engine_run eng (xs @ ys) = engine_run (engine_run eng xs) ys"
  by (simp add: engine_run_def)

text \<open>
  C7. Over steps of one run (none of them a start request), \<open>total_sent\<close> grows by the
  number of sends that completed successfully, so it never decreases from one prefix of
  the steps to a longer one; a completion adds one exactly when the send succeeded, and
  sets \<open>last_activity_at\<close> to its time whatever the outcome.
\<close>

theorem total_sent_counts_successes:
  assumes "\<forall>st \<in> set (xs @ ys). \<not> starts_run st"
  shows "total_sent (stats (engine_run eng (xs @ ys))) =
           total_sent (stats eng) + length (filter sent_step (xs @ ys)) \<and>
         total_sent (stats (engine_run eng xs)) \<le> total_sent (stats (engine_run eng (xs @ ys))) \<and>
         total_sent (stats (complete_send eng d r lvl msg now)) =
           total_sent (stats eng) + (if r = Sent then 1 else 0) \<and>
         last_activity_at (stats (complete_send eng d r lvl msg now)) = Some now"
proof -
  have a: "total_sent (stats (engine_run eng (xs @ ys))) =
           total_sent (stats eng) + length (filter sent_step (xs @ ys))"
    using assms by (rule total_sent_run)
  have "\<forall>st \<in> set ys. \<not> starts_run st" using assms by simp
  then have "total_sent (stats (engine_run (engine_run eng xs) ys)) =
           total_sent (stats (engine_run eng xs)) + length (filter sent_step ys)"
    by (rule total_sent_run)
  then have b: "total_sent (stats (engine_run eng xs)) \<le> total_sent (stats (engine_run eng (xs @ ys)))"
    by (simp add: engine_run_append)
  show ?thesis using a b by (simp add: complete_send_def)
qed

theorem total_sent_counts_successes_witness:
  "total_sent (stats (engine_run (engine_at_start 60 200 2 1 0)
      ([Claim 1 0, Complete 1 Sent INFO ''sent'' 1] @
       [Claim 1 2, Complete 1 (SendFailed SendTimeout) WARN ''timed out'' 3]))) = 1 \<and>
   total_sent (stats (complete_send (engine_at_start 60 200 2 1 0) 1
      (SendFailed SendTimeout) WARN ''timed out'' 3)) = 0 \<and>
   last_activity_at (stats (complete_send (engine_at_start 60 200 2 1 0) 1
      (SendFailed SendTimeout) WARN ''timed out'' 3)) = Some 3"
proof -
  let ?xs = "[Claim 1 0, Complete 1 Sent INFO ''sent'' 1]"
  let ?ys = "[Claim 1 2, Complete 1 (SendFailed SendTimeout) WARN ''timed out'' 3]"
  have h: "\<forall>st \<in> set (?xs @ ?ys). \<not> starts_run st"
    by simp
  have z: "total_sent (stats (engine_at_start 60 200 2 1 0)) = 0"
    by (simp add: engine_at_start_def)
  show ?thesis
    using total_sent_counts_successes
      [OF h, of "engine_at_start 60 200 2 1 0" 1 "SendFailed SendTimeout" WARN "''timed out''" 3] z
    by simp
qed

end
